theory Spec2Isabelle
  imports Complex_Main "HOL-Library.Word" "HOL-Library.Multiset"
begin

section \<open>The digit classifier component (App.tsx)\<close>

text \<open>
  The repository is one React component in two variants: \<^verbatim>\<open>website/mnist-web/src/App.tsx\<close>
  (with the save-once guards and the save message) and a second file without them. This
  theory embeds the parts with an algorithmic contract: \<^verbatim>\<open>softmax\<close>, the ranking built in
  \<^verbatim>\<open>predict\<close>, the pixel loop of \<^verbatim>\<open>preprocessCanvas\<close>, and the state transitions of
  \<^verbatim>\<open>predict\<close>, \<^verbatim>\<open>saveImageToGitHub\<close> and \<^verbatim>\<open>saveImage\<close>.

  Modelling decisions, which every theorem below depends on:
  \<^item> A finite JavaScript number is a \<^typ>\<open>real\<close>. Inside \<^verbatim>\<open>softmax\<close> and the pixel loop
    arithmetic is exact: the rounding of IEEE-754 doubles and of \<^verbatim>\<open>Float32Array\<close> stores is
    not modelled there, and \<^verbatim>\<open>Math.exp\<close> is the real exponential. Rounding is modelled in one
    place, the addition that forms a shifted score vector, because there it decides what the
    ranking is.
  \<^item> The browser's canvas (\<^verbatim>\<open>fillRect\<close>, \<^verbatim>\<open>drawImage\<close>, \<^verbatim>\<open>getImageData\<close>), the ONNX session
    and the HTTP client are outside the component; their results are parameters.
  \<^item> \<^verbatim>\<open>Array.prototype.sort\<close> is the stable sort the language standard prescribes; with a
    comparator that is consistent the result of a stable sort is unique, and it is computed
    here by insertion.
  \<^item> \<^verbatim>\<open>await\<close> is sequential composition: each handler runs from its first to its last
    statement on the state it was invoked with.
\<close>

subsection \<open>Values\<close>

text \<open>What the handlers can throw or be rejected with.\<close>

datatype js_exn =
    TypeError            \<comment> \<open>\<^verbatim>\<open>reduce\<close> of an empty array with no initial value\<close>
  | ContextError         \<comment> \<open>\<^verbatim>\<open>new Error('Could not get canvas context')\<close>\<close>
  | RunRejected          \<comment> \<open>\<^verbatim>\<open>session.run\<close> rejected\<close>

text \<open>
  A number that may be \<^verbatim>\<open>NaN\<close>: reading a typed array beyond its end gives \<^verbatim>\<open>undefined\<close>, and
  arithmetic on \<^verbatim>\<open>undefined\<close> gives \<^verbatim>\<open>NaN\<close>.
\<close>

datatype js_number = Num real | NaN

fun js_arith :: "(real \<Rightarrow> real \<Rightarrow> real) \<Rightarrow> js_number \<Rightarrow> js_number \<Rightarrow> js_number" where
  "js_arith f (Num a) (Num b) = Num (f a b)"
| "js_arith f _ _ = NaN"

text \<open>\<^verbatim>\<open>interface Prediction { digit: number; probability: number; }\<close>\<close>

record prediction =
  digit :: nat
  probability :: real

subsection \<open>softmax\<close>

text \<open>
  \<^verbatim>\<open>arr.reduce(f)\<close> with no initial value: the first element starts the accumulator; on an
  empty array it throws a TypeError.
\<close>

fun reduce :: "('a \<Rightarrow> 'a \<Rightarrow> 'a) \<Rightarrow> 'a list \<Rightarrow> js_exn + 'a" where
  "reduce f [] = Inl TypeError"
| "reduce f (x # xs) = Inr (foldl f x xs)"

text \<open>\<^verbatim>\<open>Math.max(...arr)\<close> on an array with at least one element.\<close>

fun math_max :: "real \<Rightarrow> real list \<Rightarrow> real" where
  "math_max a as = foldl max a as"

text \<open>
  \<^verbatim>\<open>const max = Math.max(...arr);
  const exp = arr.map(x => Math.exp(x - max));
  const sum = exp.reduce((a, b) => a + b);
  return exp.map(x => x / sum);\<close>

  On the empty array \<^verbatim>\<open>Math.max()\<close> is \<^verbatim>\<open>-Infinity\<close>, which no element is ever subtracted
  from: \<^verbatim>\<open>exp\<close> is empty and \<^verbatim>\<open>reduce\<close> throws. The source's \<^verbatim>\<open>sum\<close> is \<open>sum_exp\<close> here.
\<close>

definition softmax :: "real list \<Rightarrow> js_exn + real list" where
  "softmax arr =
     (case arr of
        [] \<Rightarrow> (case reduce (\<lambda>a b. a + b) ([] :: real list) of
                Inl e \<Rightarrow> Inl e
              | Inr sum_exp \<Rightarrow> Inr [])
      | a # as \<Rightarrow>
          (let mx = math_max a as;
               ex = map (\<lambda>x. exp (x - mx)) arr
           in case reduce (\<lambda>a b. a + b) ex of
                Inl e \<Rightarrow> Inl e
              | Inr sum_exp \<Rightarrow> Inr (map (\<lambda>x. x / sum_exp) ex)))"

subsection \<open>The ranking of predict\<close>

text \<open>
  \<^verbatim>\<open>xs.sort(cmp)\<close>: a negative \<^verbatim>\<open>cmp(a, b)\<close> puts \<^verbatim>\<open>a\<close> first, a positive one puts \<^verbatim>\<open>b\<close>
  first, and zero keeps the order the two had. \<open>insert_by\<close> places an element that stood
  before all of \<open>ys\<close> into the sorted \<open>ys\<close>.
\<close>

fun insert_by :: "('a \<Rightarrow> 'a \<Rightarrow> real) \<Rightarrow> 'a \<Rightarrow> 'a list \<Rightarrow> 'a list" where
  "insert_by cmp x [] = [x]"
| "insert_by cmp x (y # ys) =
     (if cmp x y \<le> 0 then x # y # ys else y # insert_by cmp x ys)"

definition array_sort :: "('a \<Rightarrow> 'a \<Rightarrow> real) \<Rightarrow> 'a list \<Rightarrow> 'a list" where
  "array_sort cmp xs = foldr (insert_by cmp) xs []"

text \<open>\<^verbatim>\<open>arr.map((prob, index) => ({ digit: index, probability: prob }))\<close>\<close>

definition with_index :: "real list \<Rightarrow> prediction list" where
  "with_index ps =
     map (\<lambda>(prob, index). \<lparr>digit = index, probability = prob\<rparr>) (zip ps [0..<length ps])"

text \<open>
  Lines 163 to 169 of \<^verbatim>\<open>predict\<close>, from the scores the session returned to the array given
  to \<^verbatim>\<open>setPredictions\<close>:
  \<^verbatim>\<open>softmax(Array.from(outputData)).map(...).sort((a, b) => b.probability - a.probability)\<close>
\<close>

definition ranking :: "real list \<Rightarrow> js_exn + prediction list" where
  "ranking outputData =
     (case softmax outputData of
        Inl e \<Rightarrow> Inl e
      | Inr softmaxOutput \<Rightarrow>
          Inr (array_sort (\<lambda>a b. probability b - probability a) (with_index softmaxOutput)))"

subsection \<open>preprocessCanvas\<close>

text \<open>
  \<^verbatim>\<open>imageData.data[i]\<close>: a byte of the \<^verbatim>\<open>Uint8ClampedArray\<close>, or \<^verbatim>\<open>undefined\<close> beyond its end,
  which the additions turn into \<^verbatim>\<open>NaN\<close>.
\<close>

fun data_at :: "8 word list \<Rightarrow> nat \<Rightarrow> js_number" where
  "data_at d i = (if i < length d then Num (real (unat (d ! i))) else NaN)"

text \<open>
  \<^verbatim>\<open>for (let i = 0; i < imageData.data.length; i += 4) {
    const grayscale = (imageData.data[i] + imageData.data[i + 1] + imageData.data[i + 2]) / 3;
    data[i / 4] = (255 - grayscale) / 255 * 2 - 1;
  }\<close>

  \<open>data\<close> is a \<^verbatim>\<open>Float32Array\<close> of fixed length: a store beyond its end is ignored, as
  list update is. The loop is entered at 0, so \<open>i\<close> is a multiple of 4 and \<^verbatim>\<open>i / 4\<close> is the
  integer \<open>i div 4\<close>.
\<close>

function pixel_loop :: "8 word list \<Rightarrow> nat \<Rightarrow> js_number list \<Rightarrow> js_number list" where
  "pixel_loop d i data =
     (if i < length d then
        (let grayscale =
               js_arith (/) (js_arith (+) (js_arith (+) (data_at d i) (data_at d (i + 1)))
                                          (data_at d (i + 2))) (Num 3)
         in pixel_loop d (i + 4)
              (data[i div 4 :=
                 js_arith (-) (js_arith (*) (js_arith (/) (js_arith (-) (Num 255) grayscale)
                                                         (Num 255)) (Num 2)) (Num 1)]))
      else data)"
  by pat_completeness auto
termination
  by (relation "measure (\<lambda>(d, i, data). length d - i)") auto

declare pixel_loop.simps [simp del]

text \<open>The value the loop stores at index \<open>i div 4\<close> in the iteration that starts at byte \<open>i\<close>.\<close>

abbreviation stored :: "8 word list \<Rightarrow> nat \<Rightarrow> js_number" where
  "stored d i \<equiv>
     js_arith (-) (js_arith (*) (js_arith (/) (js_arith (-) (Num 255)
        (js_arith (/) (js_arith (+) (js_arith (+) (data_at d i) (data_at d (i + 1)))
                                   (data_at d (i + 2))) (Num 3)))
        (Num 255)) (Num 2)) (Num 1)"

text \<open>
  The canvas calls before the loop (\<^verbatim>\<open>getContext\<close>, \<^verbatim>\<open>fillRect\<close>, \<^verbatim>\<open>drawImage\<close>,
  \<^verbatim>\<open>getImageData(0, 0, 28, 28)\<close>) are the browser's: \<open>getImageData28 canvas\<close> is \<open>None\<close>
  when \<^verbatim>\<open>getContext('2d')\<close> gives \<^verbatim>\<open>null\<close>, and otherwise the RGBA bytes of the 28 by 28
  image the browser scaled the canvas to.
\<close>

definition preprocessCanvas ::
  "('canvas \<Rightarrow> 8 word list option) \<Rightarrow> 'canvas \<Rightarrow> js_exn + js_number list" where
  "preprocessCanvas getImageData28 canvas =
     (case getImageData28 canvas of
        None \<Rightarrow> Inl ContextError
      | Some imageData \<Rightarrow> Inr (pixel_loop imageData 0 (replicate (28 * 28) (Num 0))))"

subsection \<open>The second variant of the component\<close>

text \<open>
  The file without the save guards defines \<^verbatim>\<open>preprocessCanvas\<close> (lines 71 to 96) and
  \<^verbatim>\<open>softmax\<close> (lines 170 to 175) again. They are embedded from that file, under names
  ending in \<open>_unguarded\<close>.
\<close>

function pixel_loop_unguarded ::
  "8 word list \<Rightarrow> nat \<Rightarrow> js_number list \<Rightarrow> js_number list" where
  "pixel_loop_unguarded d i data =
     (if i < length d then
        (let grayscale =
               js_arith (/) (js_arith (+) (js_arith (+) (data_at d i) (data_at d (i + 1)))
                                          (data_at d (i + 2))) (Num 3)
         in pixel_loop_unguarded d (i + 4)
              (data[i div 4 :=
                 js_arith (-) (js_arith (*) (js_arith (/) (js_arith (-) (Num 255) grayscale)
                                                         (Num 255)) (Num 2)) (Num 1)]))
      else data)"
  by pat_completeness auto
termination
  by (relation "measure (\<lambda>(d, i, data). length d - i)") auto

declare pixel_loop_unguarded.simps [simp del]

definition preprocessCanvas_unguarded ::
  "('canvas \<Rightarrow> 8 word list option) \<Rightarrow> 'canvas \<Rightarrow> js_exn + js_number list" where
  "preprocessCanvas_unguarded getImageData28 canvas =
     (case getImageData28 canvas of
        None \<Rightarrow> Inl ContextError
      | Some imageData \<Rightarrow>
          Inr (pixel_loop_unguarded imageData 0 (replicate (28 * 28) (Num 0))))"

definition softmax_unguarded :: "real list \<Rightarrow> js_exn + real list" where
  "softmax_unguarded arr =
     (case arr of
        [] \<Rightarrow> (case reduce (\<lambda>a b. a + b) ([] :: real list) of
                Inl e \<Rightarrow> Inl e
              | Inr sum_exp \<Rightarrow> Inr [])
      | a # as \<Rightarrow>
          (let mx = math_max a as;
               ex = map (\<lambda>x. exp (x - mx)) arr
           in case reduce (\<lambda>a b. a + b) ex of
                Inl e \<Rightarrow> Inl e
              | Inr sum_exp \<Rightarrow> Inr (map (\<lambda>x. x / sum_exp) ex)))"

subsection \<open>Component state and handlers\<close>

text \<open>
  The \<^verbatim>\<open>useState\<close> cells the handlers read and write, with the two side channels they
  write to: the console, and the PUT requests sent (each by the timestamp in its file
  name \<^verbatim>\<open>digit_9_<timestamp>.png\<close>).
\<close>

record app_state =
  predictions :: "prediction list"
  session :: bool
  uploadCount :: nat
  saveMessage :: string
  canvasModified :: bool
  currentDrawingSaved :: bool
  console :: "string list"
  requests :: "nat list"

text \<open>Decimal digits of a number, as a template literal prints it.\<close>

fun string_of_nat :: "nat \<Rightarrow> string" where
  "string_of_nat n =
     (if n < 10 then [''0123456789'' ! n]
      else string_of_nat (n div 10) @ [''0123456789'' ! (n mod 10)])"

text \<open>
  \<^verbatim>\<open>predict\<close>. \<open>canvas\<close> is \<^verbatim>\<open>canvasRef.current\<close> (\<open>None\<close> for \<^verbatim>\<open>null\<close>), \<open>run\<close> is
  \<^verbatim>\<open>session.run\<close> followed by \<^verbatim>\<open>outputs.output.data\<close>, with finite scores. Whatever the
  \<^verbatim>\<open>try\<close> block throws reaches the one \<^verbatim>\<open>catch\<close>, which writes to the console.
\<close>

definition predict ::
  "'canvas option \<Rightarrow> ('canvas \<Rightarrow> 8 word list option) \<Rightarrow>
   (js_number list \<Rightarrow> js_exn + real list) \<Rightarrow> app_state \<Rightarrow> app_state" where
  "predict canvas getImageData28 run s =
     (case canvas of
        None \<Rightarrow> s
      | Some c \<Rightarrow>
          if \<not> session s then s
          else
            (case preprocessCanvas getImageData28 c of
               Inl e \<Rightarrow> s\<lparr>console := console s @ [''Prediction error:'']\<rparr>
             | Inr data \<Rightarrow>
                 (case run data of
                    Inl e \<Rightarrow> s\<lparr>console := console s @ [''Prediction error:'']\<rparr>
                  | Inr outputData \<Rightarrow>
                      (case ranking outputData of
                         Inl e \<Rightarrow> s\<lparr>console := console s @ [''Prediction error:'']\<rparr>
                       | Inr ps \<Rightarrow> s\<lparr>predictions := ps\<rparr>))))"

text \<open>The outcome of \<^verbatim>\<open>axios.put\<close>: the response's \<^verbatim>\<open>html_url\<close>, or a rejection.\<close>

datatype put_result = PutOk string | PutRejected

text \<open>
  \<^verbatim>\<open>saveImageToGitHub\<close>. Its \<^verbatim>\<open>catch\<close> handles the rejection and does not throw again, so
  the promise it returns is always fulfilled.
\<close>

definition saveImageToGitHub :: "nat \<Rightarrow> put_result \<Rightarrow> app_state \<Rightarrow> app_state" where
  "saveImageToGitHub timestamp put s =
     (let s1 = s\<lparr>requests := requests s @ [timestamp]\<rparr>
      in case put of
           PutOk html_url \<Rightarrow>
             s1\<lparr>uploadCount := uploadCount s1 + 1,
                saveMessage :=
                  ''Successfully uploaded image '' @ string_of_nat (uploadCount s + 1) @ ''!'',
                console := console s1 @ [''Image saved to GitHub: '' @ html_url]\<rparr>
         | PutRejected \<Rightarrow>
             s1\<lparr>saveMessage := ''Error uploading image'',
                console := console s1 @ [''Error saving image to GitHub:'']\<rparr>)"

text \<open>
  \<^verbatim>\<open>saveImage\<close>. \<open>canvas\<close> says whether \<^verbatim>\<open>canvasRef.current\<close> is set, \<open>timestamp\<close> is
  \<^verbatim>\<open>Date.now()\<close>. \<^verbatim>\<open>setCurrentDrawingSaved(true)\<close> follows the \<^verbatim>\<open>await\<close> of a promise that
  is always fulfilled.
\<close>

definition saveImage :: "bool \<Rightarrow> nat \<Rightarrow> put_result \<Rightarrow> app_state \<Rightarrow> app_state" where
  "saveImage canvas timestamp put s =
     (if \<not> canvas then s
      else if \<not> canvasModified s then s\<lparr>saveMessage := ''Please draw a digit before saving''\<rparr>
      else if currentDrawingSaved s then
        s\<lparr>saveMessage := ''This drawing has already been saved''\<rparr>
      else (saveImageToGitHub timestamp put s)\<lparr>currentDrawingSaved := True\<rparr>)"

text \<open>
  What the component renders from its state: the save message when it is not empty
  (\<^verbatim>\<open>{saveMessage && ...}\<close>), and the first three predictions when there are any.
\<close>

record view =
  message :: "string option"
  shown :: "prediction list"

definition render :: "app_state \<Rightarrow> view" where
  "render s =
     \<lparr>message = (if saveMessage s = [] then None else Some (saveMessage s)),
      shown = (if length (predictions s) > 0 then take 3 (predictions s) else [])\<rparr>"

text \<open>The state of a freshly mounted component whose model has loaded.\<close>

definition initial_state :: app_state where
  "initial_state =
     \<lparr>predictions = [], session = True, uploadCount = 0, saveMessage = [],
      canvasModified = False, currentDrawingSaved = False, console = [], requests = []\<rparr>"

subsection \<open>Addition of doubles\<close>

text \<open>
  The one place where rounding is modelled. A JavaScript number is an IEEE-754 binary64
  value, and \<^verbatim>\<open>x + c\<close> is the double nearest to the exact sum, ties going to the even
  significand. \<open>double_round\<close> is that rounding: the spacing of the doubles around \<open>x\<close> is
  \<open>2 ^ (e - 52)\<close> where \<open>2 ^ e \<le> \<bar>x\<bar> < 2 ^ (e + 1)\<close>, and \<open>2 ^ - 1074\<close> below the smallest
  normal number; a result of magnitude \<open>2 ^ 1024\<close> or more is \<^verbatim>\<open>Infinity\<close>, here \<open>None\<close>.
\<close>

definition round_half_even :: "real \<Rightarrow> int" where
  "round_half_even r =
     (let f = \<lfloor>r\<rfloor>
      in if r - of_int f < 1 / 2 then f
         else if 1 / 2 < r - of_int f then f + 1
         else if even f then f else f + 1)"

definition double_round :: "real \<Rightarrow> real option" where
  "double_round x =
     (if x = 0 then Some 0
      else
        (let e = max \<lfloor>log 2 \<bar>x\<bar>\<rfloor> (- 1022);
             u = 2 powr of_int (e - 52);
             r = of_int (round_half_even (x / u)) * u
         in if \<bar>r\<bar> < 2 powr 1024 then Some r else None))"

definition js_plus :: "real \<Rightarrow> real \<Rightarrow> real option" where
  "js_plus x y = double_round (x + y)"

text \<open>
  \<^verbatim>\<open>scores.map(x => x + c)\<close>, the score vector with \<open>c\<close> added to every element as the
  program's numbers add; \<open>None\<close> when a sum is not finite.
\<close>

fun add_to_each :: "real \<Rightarrow> real list \<Rightarrow> real list option" where
  "add_to_each c [] = Some []"
| "add_to_each c (x # xs) =
     (case js_plus x c of
        None \<Rightarrow> None
      | Some y \<Rightarrow> (case add_to_each c xs of None \<Rightarrow> None | Some ys \<Rightarrow> Some (y # ys)))"

subsection \<open>Order of a ranking, and fixtures\<close>

text \<open>
  The order the ranking is stated to have: higher probability first, and among equal
  probabilities the smaller digit first.
\<close>

definition precedes :: "prediction \<Rightarrow> prediction \<Rightarrow> bool" where
  "precedes a b =
     (probability b < probability a \<or> (probability a = probability b \<and> digit a < digit b))"

text \<open>
  Stand-ins for the browser and the session at concrete inputs: the image data of a blank
  canvas (784 opaque white pixels), a session that returns given scores, a session whose
  \<^verbatim>\<open>run\<close> is rejected, and the state after the user has drawn on the canvas.
\<close>

definition white_canvas :: "unit \<Rightarrow> 8 word list option" where
  "white_canvas c = Some (replicate (28 * 28 * 4) 255)"

definition run_returning :: "real list \<Rightarrow> js_number list \<Rightarrow> js_exn + real list" where
  "run_returning scores data = Inr scores"

definition run_rejected :: "js_number list \<Rightarrow> js_exn + real list" where
  "run_rejected data = Inl RunRejected"

definition drawn_state :: app_state where
  "drawn_state = initial_state\<lparr>canvasModified := True\<rparr>"

section \<open>softmax\<close>

lemma foldl_add_sum_list: "foldl (\<lambda>a b. a + b) (x::real) xs = x + sum_list xs"
  by (induction xs arbitrary: x) auto

lemma foldl_max_shift:
  "foldl max (a + c) (map (\<lambda>x. x + c) as) = foldl max (a::real) as + c"
proof (induction as arbitrary: a)
  case Nil
  show ?case by simp
next
  case (Cons y ys)
  have "max (a + c) (y + c) = max a y + c" by (simp add: max_def)
  then show ?case using Cons.IH [of "max a y"] by simp
qed

text \<open>On a non-empty array nothing throws, and the result has a closed form.\<close>

lemma softmax_nonempty:
  "softmax (a # as) =
     Inr (map (\<lambda>x. exp (x - math_max a as) /
                     sum_list (map (\<lambda>x. exp (x - math_max a as)) (a # as)))
            (a # as))"
  by (simp add: softmax_def Let_def foldl_add_sum_list comp_def del: math_max.simps)

lemma softmax_empty: "softmax [] = Inl TypeError"
  by (simp add: softmax_def)

lemma elem_le_sum_list:
  "\<forall>y\<in>set ys. (0::real) \<le> y \<Longrightarrow> x \<in> set ys \<Longrightarrow> x \<le> sum_list ys"
proof (induction ys)
  case Nil
  then show ?case by simp
next
  case (Cons y ys)
  have nn: "0 \<le> sum_list ys" using Cons.prems(1) by (simp add: sum_list_nonneg)
  show ?case
  proof (cases "x = y")
    case True
    then show ?thesis using nn by simp
  next
    case False
    with Cons.prems have "x \<in> set ys" by simp
    then have "x \<le> sum_list ys" using Cons by simp
    moreover have "0 \<le> y" using Cons.prems(1) by simp
    ultimately show ?thesis by simp
  qed
qed

lemma sum_list_divide: "sum_list (map (\<lambda>x. x / (s::real)) xs) = sum_list xs / s"
  by (induction xs) (auto simp: add_divide_distrib)

lemma softmax_total:
  assumes "arr \<noteq> []"
  shows "\<exists>ps. softmax arr = Inr ps \<and> length ps = length arr \<and>
           (\<forall>p\<in>set ps. 0 \<le> p \<and> p \<le> 1) \<and> sum_list ps = 1"
proof -
  obtain a as where arr: "arr = a # as" using assms by (cases arr) auto
  define m where "m = math_max a as"
  define ex where "ex = map (\<lambda>x. exp (x - m)) arr"
  define s where "s = sum_list ex"
  define ps where "ps = map (\<lambda>e. e / s) ex"
  have sm: "softmax arr = Inr ps"
    unfolding arr softmax_nonempty ps_def ex_def s_def m_def arr by (simp add: comp_def)
  have pos: "\<forall>e\<in>set ex. 0 < e" by (auto simp: ex_def)
  have "exp (a - m) \<in> set ex" by (simp add: ex_def arr)
  then have "exp (a - m) \<le> s"
    unfolding s_def using pos by (intro elem_le_sum_list) (auto intro: less_imp_le)
  then have spos: "0 < s" using exp_gt_zero [of "a - m"] by linarith
  have "\<forall>p\<in>set ps. 0 \<le> p \<and> p \<le> 1"
  proof
    fix p assume "p \<in> set ps"
    then obtain e where e: "e \<in> set ex" "p = e / s" by (auto simp: ps_def)
    have "e \<le> s" unfolding s_def using pos e(1)
      by (intro elem_le_sum_list) (auto intro: less_imp_le)
    moreover have "0 < e" using pos e(1) by simp
    ultimately show "0 \<le> p \<and> p \<le> 1" using spos e(2) by simp
  qed
  moreover have "sum_list ps = 1"
    unfolding ps_def sum_list_divide using spos by (simp add: s_def)
  moreover have "length ps = length arr" by (simp add: ps_def ex_def)
  ultimately show ?thesis using sm by blast
qed

text \<open>A larger score gets a larger probability.\<close>

lemma softmax_strict_mono:
  assumes "softmax arr = Inr ps" and "i < length arr" and "j < length arr"
    and "arr ! i < arr ! j"
  shows "ps ! i < ps ! j"
proof -
  obtain a as where arr: "arr = a # as" using assms(2) by (cases arr) auto
  define m where "m = math_max a as"
  define s where "s = sum_list (map (\<lambda>x. exp (x - m)) arr)"
  have ps: "ps = map (\<lambda>x. exp (x - m) / s) arr"
    using assms(1) unfolding arr softmax_nonempty m_def s_def arr by simp
  have "\<forall>e\<in>set (map (\<lambda>x. exp (x - m)) arr). 0 \<le> e" by auto
  moreover have "exp (a - m) \<in> set (map (\<lambda>x. exp (x - m)) arr)" by (simp add: arr)
  ultimately have "exp (a - m) \<le> s" unfolding s_def by (rule elem_le_sum_list)
  then have spos: "0 < s" using exp_gt_zero [of "a - m"] by linarith
  have "exp (arr ! i - m) < exp (arr ! j - m)" using assms(4) by simp
  then have "exp (arr ! i - m) / s < exp (arr ! j - m) / s"
    using spos by (simp add: divide_strict_right_mono)
  then show ?thesis using assms(2,3) by (simp add: ps)
qed

text \<open>
  With exact sums, adding a constant to every score changes neither the probabilities nor
  the ranking, and equal scores give equal probabilities.
\<close>

lemma softmax_shift: "softmax (map (\<lambda>x. x + c) arr) = softmax arr"
proof (cases arr)
  case Nil
  then show ?thesis by simp
next
  case (Cons a as)
  have m: "math_max (a + c) (map (\<lambda>x. x + c) as) = math_max a as + c"
    by (simp add: foldl_max_shift)
  show ?thesis
    unfolding Cons list.map softmax_nonempty m by (simp add: comp_def)
qed

lemma softmax_replicate:
  assumes "0 < n"
  shows "softmax (replicate n v) = Inr (replicate n (1 / real n))"
proof -
  obtain k where n: "n = Suc k" using assms by (cases n) auto
  have fm: "foldl max v (replicate k v) = v" by (induction k) auto
  have "sum_list (map (\<lambda>x. exp (x - v)) (replicate k v)) = real k"
    by (induction k) auto
  then show ?thesis
    unfolding n replicate_Suc softmax_nonempty
    by (simp add: fm map_replicate_const)
qed

text \<open>
  C1: for every score vector of length 10, \<open>softmax\<close> returns ten numbers, each in
  \<open>[0, 1]\<close>, whose sum is within \<open>1e-6\<close> of 1 (in exact arithmetic the sum is 1).
\<close>

theorem softmax_probabilities:
  assumes "length scores = 10"
  shows "\<exists>ps. softmax scores = Inr ps \<and> length ps = 10 \<and>
           (\<forall>p\<in>set ps. 0 \<le> p \<and> p \<le> 1) \<and> \<bar>sum_list ps - 1\<bar> \<le> 1 / 1000000"
proof -
  have "scores \<noteq> []" using assms by auto
  then obtain ps where ps: "softmax scores = Inr ps" "length ps = length scores"
      "\<forall>p\<in>set ps. 0 \<le> p \<and> p \<le> 1" "sum_list ps = 1"
    using softmax_total by blast
  have "\<bar>sum_list ps - 1\<bar> \<le> 1 / 1000000" using ps(4) by simp
  then show ?thesis using ps assms by auto
qed

theorem softmax_probabilities_witness:
  "length [0, 0, 0, 0, 0, 0, 0, 0, 0, 10 :: real] = 10 \<and>
   (\<exists>ps. softmax [0, 0, 0, 0, 0, 0, 0, 0, 0, 10] = Inr ps \<and> length ps = 10 \<and>
      (\<forall>p\<in>set ps. 0 \<le> p \<and> p \<le> 1) \<and> \<bar>sum_list ps - 1\<bar> \<le> 1 / 1000000)"
  using softmax_probabilities [of "[0, 0, 0, 0, 0, 0, 0, 0, 0, 10]"] by simp

section \<open>The ranking\<close>

lemma mset_insert_by: "mset (insert_by cmp x ys) = add_mset x (mset ys)"
  by (induction ys) auto

lemma mset_array_sort: "mset (array_sort cmp xs) = mset xs"
  by (induction xs) (auto simp: array_sort_def mset_insert_by)

lemma set_array_sort: "set (array_sort cmp xs) = set xs"
  using mset_array_sort [of cmp xs] by (metis set_mset_mset)

lemma length_array_sort: "length (array_sort cmp xs) = length xs"
  using mset_array_sort [of cmp xs] by (metis size_mset)

lemma precedes_trans: "precedes a b \<Longrightarrow> precedes b c \<Longrightarrow> precedes a c"
  by (auto simp: precedes_def)

text \<open>
  Inserting an element whose digit is below every digit of an ordered list keeps the list
  ordered: where the comparator gives zero the element goes in front, which is where the
  smaller digit belongs.
\<close>

lemma sorted_insert_by:
  assumes "sorted_wrt precedes ys" and "\<forall>y\<in>set ys. digit x < digit y"
  shows "sorted_wrt precedes (insert_by (\<lambda>a b. probability b - probability a) x ys)"
  using assms
proof (induction ys)
  case Nil
  show ?case by simp
next
  case (Cons y ys)
  let ?cmp = "\<lambda>a b :: prediction. probability b - probability a"
  show ?case
  proof (cases "?cmp x y \<le> 0")
    case True
    then have xy: "precedes x y" using Cons.prems(2) by (auto simp: precedes_def)
    have "\<forall>z\<in>set ys. precedes x z"
      using xy Cons.prems(1) by (auto intro: precedes_trans)
    then show ?thesis using True xy Cons.prems(1) by simp
  next
    case False
    then have yx: "precedes y x" by (auto simp: precedes_def)
    have tl: "sorted_wrt precedes (insert_by ?cmp x ys)"
      using Cons.IH Cons.prems by simp
    have "set (insert_by ?cmp x ys) = insert x (set ys)"
      using mset_insert_by [of ?cmp x ys] by (metis set_mset_add_mset_insert set_mset_mset)
    then have "\<forall>z\<in>set (insert_by ?cmp x ys). precedes y z"
      using yx Cons.prems(1) by auto
    then show ?thesis using False tl by simp
  qed
qed

lemma sorted_array_sort:
  "sorted_wrt (\<lambda>a b. digit a < digit b) xs \<Longrightarrow>
   sorted_wrt precedes (array_sort (\<lambda>a b. probability b - probability a) xs)"
proof (induction xs)
  case Nil
  show ?case by (simp add: array_sort_def)
next
  case (Cons x xs)
  let ?cmp = "\<lambda>a b :: prediction. probability b - probability a"
  have "sorted_wrt precedes (array_sort ?cmp xs)" using Cons by simp
  moreover have "\<forall>y\<in>set (array_sort ?cmp xs). digit x < digit y"
    using Cons.prems by (simp add: set_array_sort)
  ultimately have "sorted_wrt precedes (insert_by ?cmp x (array_sort ?cmp xs))"
    by (rule sorted_insert_by)
  then show ?case by (simp add: array_sort_def)
qed

lemma array_sort_ties:
  "\<forall>a\<in>set xs. \<forall>b\<in>set xs. cmp a b \<le> 0 \<Longrightarrow> array_sort cmp xs = xs"
proof (induction xs)
  case Nil
  show ?case by (simp add: array_sort_def)
next
  case (Cons x xs)
  have "array_sort cmp xs = xs" using Cons by simp
  then have "array_sort cmp (x # xs) = insert_by cmp x xs" by (simp add: array_sort_def)
  also have "\<dots> = x # xs" using Cons.prems by (cases xs) auto
  finally show ?case .
qed

lemma digit_with_index: "map digit (with_index ps) = [0..<length ps]"
  unfolding with_index_def by (rule nth_equalityI) auto

lemma length_with_index: "length (with_index ps) = length ps"
  by (simp add: with_index_def)

lemma with_index_entry:
  "e \<in> set (with_index ps) \<Longrightarrow> digit e < length ps \<and> probability e = ps ! digit e"
  by (auto simp: with_index_def in_set_zip)

lemma sorted_with_index: "sorted_wrt (\<lambda>a b. digit a < digit b) (with_index ps)"
proof -
  have "sorted_wrt (<) (map digit (with_index ps))"
    unfolding digit_with_index by (simp add: sorted_wrt_upt)
  then show ?thesis by (simp add: sorted_wrt_map)
qed

text \<open>What the ranking of a non-empty score vector is, whatever its length.\<close>

lemma ranking_props:
  assumes "scores \<noteq> []"
  shows "\<exists>ps r. softmax scores = Inr ps \<and> ranking scores = Inr r \<and>
           length ps = length scores \<and> length r = length scores \<and>
           mset (map digit r) = mset [0..<length scores] \<and>
           (\<forall>e\<in>set r. digit e < length scores \<and> probability e = ps ! digit e) \<and>
           sorted_wrt precedes r"
proof -
  obtain ps where ps: "softmax scores = Inr ps" "length ps = length scores"
    using softmax_total [OF assms] by blast
  let ?cmp = "\<lambda>a b :: prediction. probability b - probability a"
  define r where "r = array_sort ?cmp (with_index ps)"
  have r: "ranking scores = Inr r" by (simp add: ranking_def ps r_def)
  have "mset (map digit r) = mset (map digit (with_index ps))"
    unfolding r_def by (metis mset_array_sort mset_map)
  then have "mset (map digit r) = mset [0..<length scores]"
    by (simp add: digit_with_index ps(2))
  moreover have "\<forall>e\<in>set r. digit e < length scores \<and> probability e = ps ! digit e"
    unfolding r_def set_array_sort using with_index_entry [of _ ps] ps(2) by auto
  moreover have "sorted_wrt precedes r"
    unfolding r_def by (rule sorted_array_sort) (rule sorted_with_index)
  moreover have "length r = length scores"
    by (simp add: r_def length_array_sort length_with_index ps(2))
  ultimately show ?thesis using ps r by blast
qed

lemma ranking_empty: "ranking [] = Inl TypeError"
  by (simp add: ranking_def softmax_empty)

lemma ranking_shift: "ranking (map (\<lambda>x. x + c) scores) = ranking scores"
  by (simp add: ranking_def softmax_shift)

lemma ranking_replicate:
  assumes "0 < n"
  shows "ranking (replicate n v) =
           Inr (map (\<lambda>i. \<lparr>digit = i, probability = 1 / real n\<rparr>) [0..<n])"
proof -
  have wi: "with_index (replicate n (1 / real n)) =
              map (\<lambda>i. \<lparr>digit = i, probability = 1 / real n\<rparr>) [0..<n]"
    unfolding with_index_def by (rule nth_equalityI) auto
  have "array_sort (\<lambda>a b. probability b - probability a) (with_index (replicate n (1 / real n)))
          = with_index (replicate n (1 / real n))"
    by (rule array_sort_ties) (auto simp: wi)
  then show ?thesis
    by (simp add: ranking_def softmax_replicate [OF assms] wi)
qed

subsection \<open>Shifted score vectors\<close>

lemma floor_log2_between:
  assumes "2 ^ n \<le> x" and "x < 2 ^ Suc n"
  shows "\<lfloor>log 2 x\<rfloor> = int n"
proof -
  have xpos: "0 < x" using assms(1) by (smt (verit) zero_less_power)
  have "real n \<le> log 2 x"
    using assms(1) xpos by (simp add: le_log_iff powr_realpow)
  moreover have "log 2 x < real n + 1"
    using assms(2) xpos by (simp add: log_less_iff powr_realpow powr_add)
  ultimately show ?thesis by (simp add: floor_eq_iff)
qed

lemma round_half_even_of_int: "round_half_even (of_int k) = k"
  by (simp add: round_half_even_def)

text \<open>A number below 128 added to \<open>2 ^ 60\<close> is lost: the doubles there are 256 apart.\<close>

lemma double_round_absorb:
  assumes "0 \<le> k" and "k < 128"
  shows "double_round (2 ^ 60 + k) = Some (2 ^ 60)"
proof -
  let ?x = "2 ^ 60 + k :: real"
  have "\<lfloor>log 2 ?x\<rfloor> = int 60"
    using assms by (intro floor_log2_between) auto
  then have e: "max \<lfloor>log 2 \<bar>?x\<bar>\<rfloor> (- 1022) = 60" using assms(1) by simp
  have u: "2 powr of_int (60 - 52) = (256 :: real)" by simp
  have fl: "\<lfloor>?x / 256\<rfloor> = 2 ^ 52" using assms by (simp add: floor_eq_iff)
  have rhe: "round_half_even (?x / 256) = 2 ^ 52"
    unfolding round_half_even_def Let_def fl using assms by simp
  have nz: "?x \<noteq> 0" using assms(1) by simp
  have big: "\<bar>(2::real) ^ 60\<bar> < 2 powr 1024" by (simp add: powr_numeral)
  show ?thesis
    unfolding double_round_def Let_def e u rhe using nz big by simp
qed

text \<open>
  Around \<open>10 ^ 17\<close> the doubles are 16 apart; a sum half way between two of them goes to
  the one with the even significand.
\<close>

lemma double_round_near_1e17:
  assumes "0 \<le> k" and "k < 16"
  shows "double_round (10 ^ 17 + k) =
           Some (if k < 8 \<or> k = 8 then 10 ^ 17 else 10 ^ 17 + 16)"
proof -
  let ?x = "10 ^ 17 + k :: real"
  have "\<lfloor>log 2 ?x\<rfloor> = int 56"
    using assms by (intro floor_log2_between) auto
  then have e: "max \<lfloor>log 2 \<bar>?x\<bar>\<rfloor> (- 1022) = 56" using assms(1) by simp
  have u: "2 powr of_int (56 - 52) = (16 :: real)" by simp
  have fl: "\<lfloor>?x / 16\<rfloor> = 6250000000000000" using assms by (simp add: floor_eq_iff)
  have fr: "?x / 16 - of_int (6250000000000000 :: int) = k / 16"
    by (simp add: add_divide_distrib)
  have rhe: "round_half_even (?x / 16) =
               (if k < 8 \<or> k = 8 then 6250000000000000 else 6250000000000001)"
    unfolding round_half_even_def Let_def fl fr using assms by auto
  have nz: "?x \<noteq> 0" using assms(1) by simp
  have big: "\<bar>(10::real) ^ 17 + 16\<bar> < 2 powr 1024" "\<bar>(10::real) ^ 17\<bar> < 2 powr 1024"
    by (simp_all add: powr_numeral)
  show ?thesis
    unfolding double_round_def Let_def e u rhe using nz big by auto
qed

text \<open>The natural numbers below \<open>2 ^ 53\<close> are doubles.\<close>

lemma double_round_nat:
  assumes "0 < n" and "n < 2 ^ 53"
  shows "double_round (real n) = Some (real n)"
proof -
  obtain m where m: "2 ^ m \<le> n" "n < 2 ^ Suc m"
    using assms(1) ex_power_ivl1 [of 2 n] by auto
  have m52: "m \<le> 52"
  proof (rule ccontr)
    assume "\<not> m \<le> 52"
    then have "53 \<le> m" by simp
    then have "(2::nat) ^ 53 \<le> 2 ^ m" by (intro power_increasing) simp_all
    then show False using m(1) assms(2) by simp
  qed
  have "(2::real) ^ m \<le> real n" using m(1) by (metis of_nat_le_iff of_nat_numeral of_nat_power)
  moreover have "real n < 2 ^ Suc m" using m(2) by (metis of_nat_less_iff of_nat_numeral of_nat_power)
  ultimately have fl: "\<lfloor>log 2 (real n)\<rfloor> = int m" by (rule floor_log2_between)
  have e: "max \<lfloor>log 2 \<bar>real n\<bar>\<rfloor> (- 1022) = int m" using fl by simp
  have u: "2 powr of_int (int m - 52) = 1 / (2::real) ^ (52 - m)"
  proof -
    have "real_of_int (int m - 52) = - real (52 - m)" using m52 by (simp add: of_nat_diff)
    then have "2 powr of_int (int m - 52) = 2 powr (- real (52 - m))" by (simp only:)
    also have "\<dots> = 1 / (2::real) ^ (52 - m)" by (simp add: powr_minus powr_realpow divide_inverse)
    finally show ?thesis .
  qed
  have q: "real n / (1 / (2::real) ^ (52 - m)) = of_int (int (n * 2 ^ (52 - m)))" by simp
  have rhe: "round_half_even (real n / (1 / (2::real) ^ (52 - m))) = int (n * 2 ^ (52 - m))"
    unfolding q by (rule round_half_even_of_int)
  have r: "of_int (int (n * 2 ^ (52 - m))) * (1 / (2::real) ^ (52 - m)) = real n" by simp
  have "real n < 2 ^ 53" using assms(2) by (metis of_nat_less_iff of_nat_numeral of_nat_power)
  also have "\<dots> < (2::real) powr 1024" by (simp add: powr_numeral)
  finally have big: "\<bar>real n\<bar> < 2 powr 1024" by simp
  have nz: "real n \<noteq> 0" using assms(1) by simp
  show ?thesis
    unfolding double_round_def Let_def e u rhe r using nz big by simp
qed

lemma double_round_numeral:
  "(numeral k :: nat) < 2 ^ 53 \<Longrightarrow> double_round (numeral k) = Some (numeral k)"
  using double_round_nat [of "numeral k"] by simp

lemma length_add_to_each: "add_to_each c xs = Some ys \<Longrightarrow> length ys = length xs"
  by (induction xs arbitrary: ys) (auto split: option.splits)

lemma add_to_each_all_exact:
  "\<forall>x\<in>set xs. js_plus x c = Some (x + c) \<Longrightarrow>
   add_to_each c xs = Some (map (\<lambda>x. x + c) xs)"
  by (induction xs) auto

lemma add_to_each_absorbed:
  "add_to_each (2 ^ 60) [1, 2, 3, 4, 5, 6, 7, 8, 9, 10] = Some (replicate 10 (2 ^ 60))"
proof -
  define C :: real where "C = 2 ^ 60"
  have a: "js_plus k C = Some C" if "0 \<le> k" "k < 128" for k
    unfolding C_def js_plus_def using double_round_absorb [OF that] by (simp only: add.commute)
  have "add_to_each C [1, 2, 3, 4, 5, 6, 7, 8, 9, 10] = Some (replicate 10 C)"
    by (simp add: a eval_nat_numeral)
  then show ?thesis unfolding C_def .
qed

lemma add_to_each_exact:
  "\<forall>x\<in>set [1, 2, 3, 4, 5, 6, 7, 8, 9, 10]. js_plus x 1 = Some (x + 1)"
  by (simp add: js_plus_def double_round_numeral)

lemma ranking_differs:
  "ranking (replicate 10 (2 ^ 60)) \<noteq> ranking [1, 2, 3, 4, 5, 6, 7, 8, 9, 10]"
proof
  let ?scores = "[1, 2, 3, 4, 5, 6, 7, 8, 9, 10] :: real list"
  assume eq: "ranking (replicate 10 (2 ^ 60)) = ranking ?scores"
  have "?scores \<noteq> []" by simp
  then obtain ps r where r: "softmax ?scores = Inr ps" "ranking ?scores = Inr r"
      "\<forall>e\<in>set r. digit e < length ?scores \<and> probability e = ps ! digit e"
    using ranking_props [of ?scores] by blast
  have "ranking (replicate 10 (2 ^ 60)) =
          Inr (map (\<lambda>i. \<lparr>digit = i, probability = 1 / real 10\<rparr>) [0..<10])"
    by (rule ranking_replicate) simp
  then have r': "r = map (\<lambda>i. \<lparr>digit = i, probability = 1 / real 10\<rparr>) [0..<10]"
    using eq r(2) by simp
  have "\<lparr>digit = 0, probability = 1 / real 10\<rparr> \<in> set r"
    and "\<lparr>digit = 9, probability = 1 / real 10\<rparr> \<in> set r"
    unfolding r' by auto
  then have "ps ! 0 = 1 / real 10" and "ps ! 9 = 1 / real 10" using r(3) by force+
  moreover have "ps ! 0 < ps ! 9"
    by (rule softmax_strict_mono [OF r(1)]) simp_all
  ultimately show False by simp
qed

text \<open>
  Counterexample to C3 as stated: adding \<open>2 ^ 60\<close> to each of the scores 1 to 10 gives ten
  times \<open>2 ^ 60\<close>, every sum being rounded to the nearest double, and the ranking of ten
  equal scores (0.1 each, digits in ascending order) is not the ranking of the scores 1
  to 10.
\<close>

theorem ranking_rounded_shift_differs:
  "add_to_each (2 ^ 60) [1, 2, 3, 4, 5, 6, 7, 8, 9, 10] = Some (replicate 10 (2 ^ 60)) \<and>
   ranking (replicate 10 (2 ^ 60)) \<noteq> ranking [1, 2, 3, 4, 5, 6, 7, 8, 9, 10]"
  using add_to_each_absorbed ranking_differs by (rule conjI)

text \<open>
  C3, as the code has it: for every score vector of length 10 and every constant \<open>c\<close>
  whose addition to the scores is exact (the shifted vector the program computes holds the
  exact sums), the ranking of the shifted vector is the ranking of the scores; and ten
  equal scores give probability \<open>1/10\<close> to every digit, ranked in digit order. The
  subtraction \<^verbatim>\<open>x - max\<close> in \<^verbatim>\<open>softmax\<close> then has the same exact value for the shifted and
  the unshifted scores.
\<close>

theorem ranking_exact_shift_invariant:
  assumes "length scores = 10" and "add_to_each c scores = Some shifted"
    and "shifted = map (\<lambda>x. x + c) scores"
  shows "ranking shifted = ranking scores \<and>
         softmax (replicate 10 v) = Inr (replicate 10 (1 / 10)) \<and>
         ranking (replicate 10 v) =
           Inr (map (\<lambda>i. \<lparr>digit = i, probability = 1 / 10\<rparr>) [0..<10])"
proof -
  have "softmax (replicate 10 v) = Inr (replicate 10 (1 / real 10))"
    by (rule softmax_replicate) simp
  moreover have "ranking (replicate 10 v) =
      Inr (map (\<lambda>i. \<lparr>digit = i, probability = 1 / real 10\<rparr>) [0..<10])"
    by (rule ranking_replicate) simp
  ultimately show ?thesis using assms(3) by (simp add: ranking_shift)
qed

theorem ranking_exact_shift_invariant_witness:
  "length [1, 2, 3, 4, 5, 6, 7, 8, 9, 10 :: real] = 10 \<and>
   add_to_each 1 [1, 2, 3, 4, 5, 6, 7, 8, 9, 10] = Some [2, 3, 4, 5, 6, 7, 8, 9, 10, 11] \<and>
   ranking [2, 3, 4, 5, 6, 7, 8, 9, 10, 11] = ranking [1, 2, 3, 4, 5, 6, 7, 8, 9, 10]"
proof -
  have len: "length [1, 2, 3, 4, 5, 6, 7, 8, 9, 10 :: real] = 10" by simp
  have m: "[2, 3, 4, 5, 6, 7, 8, 9, 10, 11] =
             map (\<lambda>x. x + 1) [1, 2, 3, 4, 5, 6, 7, 8, 9, 10 :: real]"
    by simp
  have a: "add_to_each 1 [1, 2, 3, 4, 5, 6, 7, 8, 9, 10] =
             Some [2, 3, 4, 5, 6, 7, 8, 9, 10, 11]"
    using add_to_each_all_exact [OF add_to_each_exact] by simp
  have "ranking [2, 3, 4, 5, 6, 7, 8, 9, 10, 11] = ranking [1, 2, 3, 4, 5, 6, 7, 8, 9, 10]"
    using ranking_exact_shift_invariant [OF len a m] by blast
  then show ?thesis using len a by blast
qed

section \<open>predict\<close>

lemma predict_ok:
  assumes "session s" and "preprocessCanvas getImageData28 c = Inr data"
    and "run data = Inr scores" and "ranking scores = Inr r"
  shows "predict (Some c) getImageData28 run s = s\<lparr>predictions := r\<rparr>"
  using assms by (simp add: predict_def)

lemma predict_ranking_throws:
  assumes "session s" and "preprocessCanvas getImageData28 c = Inr data"
    and "run data = Inr scores" and "ranking scores = Inl e"
  shows "predict (Some c) getImageData28 run s =
           s\<lparr>console := console s @ [''Prediction error:'']\<rparr>"
  using assms by (simp add: predict_def)

lemma predict_run_rejected:
  assumes "session s" and "preprocessCanvas getImageData28 c = Inr data"
    and "run data = Inl e"
  shows "predict (Some c) getImageData28 run s =
           s\<lparr>console := console s @ [''Prediction error:'']\<rparr>"
  using assms by (simp add: predict_def)

lemma preprocess_white_canvas:
  "preprocessCanvas white_canvas () =
     Inr (pixel_loop (replicate (28 * 28 * 4) 255) 0 (replicate (28 * 28) (Num 0)))"
  by (simp add: preprocessCanvas_def white_canvas_def)

lemma session_initial_state: "session initial_state"
  by (simp add: initial_state_def)

text \<open>
  C2: when the session returns ten scores, the ranking \<open>predict\<close> stores has ten entries;
  for every digit \<open>i\<close> below 10 it holds the pair of \<open>i\<close> and the probability \<open>softmax\<close> gave
  \<open>i\<close>, and it holds no other entry; and it is ordered by descending probability, equal
  probabilities by ascending digit.
\<close>

theorem predict_ranking_sorted:
  assumes "session s" and "preprocessCanvas getImageData28 c = Inr data"
    and "run data = Inr scores" and "length scores = 10"
  shows "\<exists>ps. softmax scores = Inr ps \<and> length ps = 10 \<and>
           length (predictions (predict (Some c) getImageData28 run s)) = 10 \<and>
           (\<forall>i<10. \<lparr>digit = i, probability = ps ! i\<rparr> \<in>
                      set (predictions (predict (Some c) getImageData28 run s))) \<and>
           (\<forall>e\<in>set (predictions (predict (Some c) getImageData28 run s)).
              digit e < 10 \<and> probability e = ps ! digit e) \<and>
           sorted_wrt precedes (predictions (predict (Some c) getImageData28 run s))"
proof -
  have "scores \<noteq> []" using assms(4) by auto
  then obtain ps r where r: "softmax scores = Inr ps" "ranking scores = Inr r"
      "length ps = length scores" "length r = length scores"
      "mset (map digit r) = mset [0..<length scores]"
      "\<forall>e\<in>set r. digit e < length scores \<and> probability e = ps ! digit e"
      "sorted_wrt precedes r"
    using ranking_props by blast
  have p: "predictions (predict (Some c) getImageData28 run s) = r"
    using predict_ok [where run = run and data = data, OF assms(1-3) r(2)] by simp
  have "set (map digit r) = set [0..<length scores]"
    using r(5) by (rule mset_eq_setD)
  then have digits: "digit ` set r = {0..<10}" using assms(4) by simp
  have cover: "\<lparr>digit = i, probability = ps ! i\<rparr> \<in> set r" if "i < 10" for i
  proof -
    have "i \<in> digit ` set r" using that digits by simp
    then obtain e where e: "e \<in> set r" "digit e = i" by auto
    then have "probability e = ps ! i" using r(6) by auto
    then have "e = \<lparr>digit = i, probability = ps ! i\<rparr>" using e(2) by simp
    then show ?thesis using e(1) by simp
  qed
  show ?thesis using r(1,3,4,6,7) cover assms(4) unfolding p by auto
qed

theorem predict_ranking_sorted_witness:
  "session initial_state \<and> length [1, 2, 3, 4, 5, 6, 7, 8, 9, 10 :: real] = 10 \<and>
   sorted_wrt precedes
     (predictions (predict (Some ()) white_canvas
        (run_returning [1, 2, 3, 4, 5, 6, 7, 8, 9, 10]) initial_state))"
proof -
  have run: "run_returning [1, 2, 3, 4, 5, 6, 7, 8, 9, 10]
               (pixel_loop (replicate (28 * 28 * 4) 255) 0 (replicate (28 * 28) (Num 0))) =
             Inr [1, 2, 3, 4, 5, 6, 7, 8, 9, 10]"
    by (simp add: run_returning_def)
  have len: "length [1, 2, 3, 4, 5, 6, 7, 8, 9, 10 :: real] = 10" by simp
  show ?thesis
    using predict_ranking_sorted
        [where run = "run_returning [1, 2, 3, 4, 5, 6, 7, 8, 9, 10]",
         OF session_initial_state preprocess_white_canvas run len]
      session_initial_state len
    by blast
qed

text \<open>
  C9: when the session returns ten scores, the ranking \<open>predict\<close> stores has ten entries and
  their digits are the digits 0 to 9, each once.
\<close>

theorem predict_ranking_permutation:
  assumes "session s" and "preprocessCanvas getImageData28 c = Inr data"
    and "run data = Inr scores" and "length scores = 10"
  shows "length (predictions (predict (Some c) getImageData28 run s)) = 10 \<and>
         mset (map digit (predictions (predict (Some c) getImageData28 run s))) =
           mset [0..<10]"
proof -
  have "scores \<noteq> []" using assms(4) by auto
  then obtain r where r: "ranking scores = Inr r" "length r = length scores"
      "mset (map digit r) = mset [0..<length scores]"
    using ranking_props by blast
  have "predictions (predict (Some c) getImageData28 run s) = r"
    using predict_ok [where run = run and data = data, OF assms(1-3) r(1)] by simp
  then show ?thesis using r assms(4) by simp
qed

theorem predict_ranking_permutation_witness:
  "session initial_state \<and> length [0, 0, 0, 0, 0, 0, 0, 0, 0, 10 :: real] = 10 \<and>
   length (predictions (predict (Some ()) white_canvas
      (run_returning [0, 0, 0, 0, 0, 0, 0, 0, 0, 10]) initial_state)) = 10 \<and>
   mset (map digit (predictions (predict (Some ()) white_canvas
      (run_returning [0, 0, 0, 0, 0, 0, 0, 0, 0, 10]) initial_state))) = mset [0..<10]"
proof -
  have run: "run_returning [0, 0, 0, 0, 0, 0, 0, 0, 0, 10]
               (pixel_loop (replicate (28 * 28 * 4) 255) 0 (replicate (28 * 28) (Num 0))) =
             Inr [0, 0, 0, 0, 0, 0, 0, 0, 0, 10]"
    by (simp add: run_returning_def)
  have len: "length [0, 0, 0, 0, 0, 0, 0, 0, 0, 10 :: real] = 10" by simp
  show ?thesis
    using predict_ranking_permutation
        [where run = "run_returning [0, 0, 0, 0, 0, 0, 0, 0, 0, 10]",
         OF session_initial_state preprocess_white_canvas run len]
      session_initial_state len
    by blast
qed

text \<open>
  Counterexample to C4 as stated: three scores are ranked and stored, and nothing is
  written to the console. \<open>predict\<close> checks no length. The only score vector it does not rank is the empty one,
  and that because \<^verbatim>\<open>reduce\<close> throws on it; the exception reaches the \<^verbatim>\<open>catch\<close>, which
  writes to the console.
\<close>

theorem predict_ranks_three_scores:
  "predict (Some ()) white_canvas (run_returning [0, 0, 0]) initial_state =
     initial_state\<lparr>predictions :=
       [\<lparr>digit = 0, probability = 1 / 3\<rparr>, \<lparr>digit = 1, probability = 1 / 3\<rparr>,
        \<lparr>digit = 2, probability = 1 / 3\<rparr>]\<rparr> \<and>
   console (predict (Some ()) white_canvas (run_returning [0, 0, 0]) initial_state) = []"
  by (simp add: predict_def preprocess_white_canvas run_returning_def ranking_def softmax_def
      array_sort_def with_index_def upt_rec initial_state_def)

text \<open>
  C4, as the code has it: an empty score vector makes \<open>softmax\<close> throw, and \<open>predict\<close>
  writes to the console and leaves the predictions as they were; a score vector of any
  other length \<open>n\<close>, 10 or not, is ranked into \<open>n\<close> entries, which \<open>predict\<close> stores.
\<close>

theorem predict_any_length:
  assumes "session s" and "preprocessCanvas getImageData28 c = Inr data"
    and "run data = Inr scores"
  shows "(scores = [] \<longrightarrow>
            ranking scores = Inl TypeError \<and>
            predict (Some c) getImageData28 run s =
              s\<lparr>console := console s @ [''Prediction error:'']\<rparr>) \<and>
         (scores \<noteq> [] \<longrightarrow>
            (\<exists>r. ranking scores = Inr r \<and> length r = length scores \<and>
                 predict (Some c) getImageData28 run s = s\<lparr>predictions := r\<rparr>))"
proof (cases "scores = []")
  case True
  have "ranking scores = Inl TypeError" using True by (simp add: ranking_empty)
  then show ?thesis
    using True predict_ranking_throws [where run = run and data = data, OF assms] by simp
next
  case False
  then obtain r where r: "ranking scores = Inr r" "length r = length scores"
    using ranking_props by blast
  then show ?thesis
    using False predict_ok [where run = run and data = data, OF assms r(1)] by simp
qed

theorem predict_any_length_witness:
  "session initial_state \<and>
   (\<exists>r. ranking [3, 1, 2] = Inr r \<and> length r = length [3, 1, 2 :: real] \<and>
        predict (Some ()) white_canvas (run_returning [3, 1, 2]) initial_state =
          initial_state\<lparr>predictions := r\<rparr>) \<and>
   predict (Some ()) white_canvas (run_returning []) initial_state =
     initial_state\<lparr>console := console initial_state @ [''Prediction error:'']\<rparr>"
proof -
  have run3: "run_returning [3, 1, 2]
               (pixel_loop (replicate (28 * 28 * 4) 255) 0 (replicate (28 * 28) (Num 0))) =
             Inr [3, 1, 2]"
    by (simp add: run_returning_def)
  have run0: "run_returning []
               (pixel_loop (replicate (28 * 28 * 4) 255) 0 (replicate (28 * 28) (Num 0))) =
             Inr []"
    by (simp add: run_returning_def)
  show ?thesis
    using predict_any_length
        [where run = "run_returning [3, 1, 2]",
         OF session_initial_state preprocess_white_canvas run3]
      predict_any_length
        [where run = "run_returning []",
         OF session_initial_state preprocess_white_canvas run0]
      session_initial_state
    by simp
qed

text \<open>
  Counterexample to C6 as stated, a failed inference on the freshly mounted component:
  what is rendered afterwards is what
  was rendered before, with no message, and the console has one more line.
\<close>

theorem predict_failure_not_rendered:
  "render (predict (Some ()) white_canvas run_rejected initial_state) = render initial_state \<and>
   message (render (predict (Some ()) white_canvas run_rejected initial_state)) = None \<and>
   console (predict (Some ()) white_canvas run_rejected initial_state) = [''Prediction error:'']"
  by (simp add: predict_def preprocess_white_canvas run_rejected_def render_def
      initial_state_def)

text \<open>
  C6, as the code has it: when the inference call fails, \<open>predict\<close> writes one line to the
  console and changes nothing else; the predictions and everything rendered, the save
  message included, stay as they were.
\<close>

theorem predict_failure_logged_only:
  assumes "session s" and "preprocessCanvas getImageData28 c = Inr data"
    and "run data = Inl e"
  shows "predict (Some c) getImageData28 run s =
           s\<lparr>console := console s @ [''Prediction error:'']\<rparr> \<and>
         predictions (predict (Some c) getImageData28 run s) = predictions s \<and>
         render (predict (Some c) getImageData28 run s) = render s"
  using predict_run_rejected [where run = run and data = data, OF assms]
  by (simp add: render_def)

theorem predict_failure_logged_only_witness:
  "session initial_state \<and>
   predict (Some ()) white_canvas run_rejected initial_state =
     initial_state\<lparr>console := console initial_state @ [''Prediction error:'']\<rparr> \<and>
   predictions (predict (Some ()) white_canvas run_rejected initial_state) =
     predictions initial_state \<and>
   render (predict (Some ()) white_canvas run_rejected initial_state) = render initial_state"
proof -
  have run: "run_rejected
               (pixel_loop (replicate (28 * 28 * 4) 255) 0 (replicate (28 * 28) (Num 0))) =
             Inl RunRejected"
    by (simp add: run_rejected_def)
  show ?thesis
    using predict_failure_logged_only
        [where run = run_rejected, OF session_initial_state preprocess_white_canvas run]
      session_initial_state
    by blast
qed

section \<open>saveImage\<close>

text \<open>
  Whatever the upload's outcome, a save that passes the two guards marks the drawing as
  saved: \<^verbatim>\<open>saveImageToGitHub\<close> handles the rejection itself, so the statement after the
  \<^verbatim>\<open>await\<close> runs.
\<close>

lemma saveImage_marks_saved:
  assumes "canvasModified s" and "\<not> currentDrawingSaved s"
  shows "currentDrawingSaved (saveImage True timestamp put s)"
  using assms by (simp add: saveImage_def)

lemma saveImage_blocked_when_saved:
  assumes "canvasModified s" and "currentDrawingSaved s"
  shows "saveImage True timestamp put s =
           s\<lparr>saveMessage := ''This drawing has already been saved''\<rparr>"
  using assms by (simp add: saveImage_def)

text \<open>
  C5 at a concrete run: the user has drawn, the first save's upload is rejected, and the
  second save is invoked with an upload that would succeed. The first save shows
  \<^verbatim>\<open>Error uploading image\<close> and marks the drawing as saved; the second sends no request and
  shows \<^verbatim>\<open>This drawing has already been saved\<close>.
\<close>

theorem saveImage_failed_upload_blocks_retry:
  "message (render (saveImage True 1 PutRejected drawn_state)) =
     Some ''Error uploading image'' \<and>
   currentDrawingSaved (saveImage True 1 PutRejected drawn_state) \<and>
   requests (saveImage True 1 PutRejected drawn_state) = [1] \<and>
   saveMessage (saveImage True 2 (PutOk ''url'') (saveImage True 1 PutRejected drawn_state)) =
     ''This drawing has already been saved'' \<and>
   requests (saveImage True 2 (PutOk ''url'') (saveImage True 1 PutRejected drawn_state)) =
     [1] \<and>
   uploadCount (saveImage True 2 (PutOk ''url'') (saveImage True 1 PutRejected drawn_state)) =
     0"
  by (simp add: saveImage_def saveImageToGitHub_def drawn_state_def initial_state_def
      render_def)

section \<open>preprocessCanvas\<close>

lemma length_pixel_loop: "length (pixel_loop d i data) = length data"
proof (induction d i data rule: pixel_loop.induct)
  case (1 d i data)
  show ?case
  proof (cases "i < length d")
    case True
    then show ?thesis using "1.IH" by (subst pixel_loop.simps) (simp add: Let_def)
  next
    case False
    then show ?thesis by (subst pixel_loop.simps) simp
  qed
qed

text \<open>
  The loop invariant, read at the end: started at byte \<open>4 * k\<close>, the loop has written the
  entries from \<open>k\<close> on that have a pixel in the image data, and left the others alone.
\<close>

lemma pixel_loop_nth:
  assumes "j < length data"
  shows "pixel_loop d (4 * k) data ! j =
           (if k \<le> j \<and> 4 * j < length d then stored d (4 * j) else data ! j)"
  using assms
proof (induction d "4 * k" data arbitrary: k rule: pixel_loop.induct)
  case (1 d data)
  show ?case
  proof (cases "4 * k < length d")
    case False
    then show ?thesis by (subst pixel_loop.simps) auto
  next
    case True
    let ?data = "data[4 * k div 4 := stored d (4 * k)]"
    have step: "pixel_loop d (4 * k) data = pixel_loop d (4 * Suc k) ?data"
      using True by (subst pixel_loop.simps) (simp add: Let_def add.commute)
    have len: "j < length ?data" using "1.prems" by simp
    have ih: "pixel_loop d (4 * Suc k) ?data ! j =
                (if Suc k \<le> j \<and> 4 * j < length d then stored d (4 * j) else ?data ! j)"
      using "1.hyps" [OF True refl _ len, of "Suc k"] by simp
    show ?thesis
    proof (cases "j = k")
      case True
      then show ?thesis using ih \<open>4 * k < length d\<close> "1.prems" unfolding step by simp
    next
      case False
      then show ?thesis using ih unfolding step by auto
    qed
  qed
qed

lemma stored_in_range:
  assumes "i + 2 < length d"
  shows "stored d i = Num ((255 - (real (unat (d ! i)) + real (unat (d ! (i + 1))) +
                              real (unat (d ! (i + 2)))) / 3) / 255 * 2 - 1)"
  using assms by simp

lemma byte_bound: "real (unat (w :: 8 word)) \<le> 255"
proof -
  have "unat w < 2 ^ 8" using unsigned_less [of w] by simp
  then have "unat w \<le> 255" by simp
  then have "real (unat w) \<le> real 255" by (rule of_nat_mono)
  then show ?thesis by (simp only: of_nat_numeral)
qed

lemma normalized_bounds:
  assumes "0 \<le> r" "r \<le> 255" "0 \<le> g" "g \<le> 255" "0 \<le> b" "b \<le> (255::real)"
  shows "- 1 \<le> (255 - (r + g + b) / 3) / 255 * 2 - 1 \<and>
         (255 - (r + g + b) / 3) / 255 * 2 - 1 \<le> 1"
  using assms by (simp add: field_simps)

lemma preprocess_result:
  assumes "getImageData28 canvas = Some img"
  shows "preprocessCanvas getImageData28 canvas =
           Inr (pixel_loop img 0 (replicate (28 * 28) (Num 0)))"
  by (simp add: preprocessCanvas_def assms)

lemma preprocess_nth:
  assumes "length img = 28 * 28 * 4" and "k < 784"
  shows "pixel_loop img 0 (replicate (28 * 28) (Num 0)) ! k =
    Num ((255 - (real (unat (img ! (4 * k))) + real (unat (img ! (4 * k + 1))) +
                              real (unat (img ! (4 * k + 2)))) / 3) / 255 * 2 - 1)"
proof -
  have "pixel_loop img 0 (replicate (28 * 28) (Num 0)) ! k = stored img (4 * k)"
    using pixel_loop_nth [of k "replicate (28 * 28) (Num 0)" img 0] assms by simp
  also have "\<dots> = Num ((255 - (real (unat (img ! (4 * k))) + real (unat (img ! (4 * k + 1))) +
                              real (unat (img ! (4 * k + 2)))) / 3) / 255 * 2 - 1)"
    using assms by (intro stored_in_range) simp
  finally show ?thesis .
qed

lemma white_canvas_bytes: "white_canvas () = Some (replicate (28 * 28 * 4) 255)"
  by (simp add: white_canvas_def)

text \<open>
  C7: on the 28 by 28 image data the browser returns, entry \<open>k\<close> of the tensor is
  \<open>(255 - g) / 255 * 2 - 1\<close> with \<open>g = (R + G + B) / 3\<close> of pixel \<open>k\<close>, the alpha byte at
  \<open>4 * k + 3\<close> not being read; so an image whose pixels are all white gives 784 times \<open>-1\<close>
  and one whose pixels are all black gives 784 times \<open>1\<close>.
\<close>

theorem preprocess_pixel_formula:
  assumes "getImageData28 canvas = Some img" and "length img = 28 * 28 * 4"
  shows "\<exists>t. preprocessCanvas getImageData28 canvas = Inr t \<and> length t = 784 \<and>
    (\<forall>k<784. t ! k =
       Num ((255 - (real (unat (img ! (4 * k))) + real (unat (img ! (4 * k + 1))) +
                    real (unat (img ! (4 * k + 2)))) / 3) / 255 * 2 - 1)) \<and>
    ((\<forall>k<784. img ! (4 * k) = 255 \<and> img ! (4 * k + 1) = 255 \<and> img ! (4 * k + 2) = 255)
       \<longrightarrow> t = replicate 784 (Num (- 1))) \<and>
    ((\<forall>k<784. img ! (4 * k) = 0 \<and> img ! (4 * k + 1) = 0 \<and> img ! (4 * k + 2) = 0)
       \<longrightarrow> t = replicate 784 (Num 1))"
proof -
  define t where "t = pixel_loop img 0 (replicate (28 * 28) (Num 0))"
  have p: "preprocessCanvas getImageData28 canvas = Inr t"
    unfolding t_def by (rule preprocess_result) (rule assms(1))
  have len: "length t = 784" by (simp add: t_def length_pixel_loop)
  have nth: "t ! k =
       Num ((255 - (real (unat (img ! (4 * k))) + real (unat (img ! (4 * k + 1))) +
                    real (unat (img ! (4 * k + 2)))) / 3) / 255 * 2 - 1)" if "k < 784" for k
    unfolding t_def using assms(2) that by (rule preprocess_nth)
  have white: "t = replicate 784 (Num (- 1))"
    if w: "\<forall>k<784. img ! (4 * k) = 255 \<and> img ! (4 * k + 1) = 255 \<and> img ! (4 * k + 2) = 255"
  proof (rule nth_equalityI)
    show "length t = length (replicate 784 (Num (- 1)))" using len by simp
  next
    fix k assume "k < length t"
    then have k: "k < 784" using len by simp
    then show "t ! k = replicate 784 (Num (- 1)) ! k" using nth [OF k] w by simp
  qed
  have black: "t = replicate 784 (Num 1)"
    if b: "\<forall>k<784. img ! (4 * k) = 0 \<and> img ! (4 * k + 1) = 0 \<and> img ! (4 * k + 2) = 0"
  proof (rule nth_equalityI)
    show "length t = length (replicate 784 (Num 1))" using len by simp
  next
    fix k assume "k < length t"
    then have k: "k < 784" using len by simp
    then show "t ! k = replicate 784 (Num 1) ! k" using nth [OF k] b by simp
  qed
  show ?thesis using p len nth white black by blast
qed

theorem preprocess_pixel_formula_witness:
  "white_canvas () = Some (replicate (28 * 28 * 4) 255) \<and>
   length (replicate (28 * 28 * 4) (255 :: 8 word)) = 28 * 28 * 4 \<and>
   preprocessCanvas white_canvas () = Inr (replicate 784 (Num (- 1)))"
proof -
  have len: "length (replicate (28 * 28 * 4) (255 :: 8 word)) = 28 * 28 * 4" by simp
  have w: "\<forall>k<784. replicate (28 * 28 * 4) (255 :: 8 word) ! (4 * k) = 255 \<and>
             replicate (28 * 28 * 4) (255 :: 8 word) ! (4 * k + 1) = 255 \<and>
             replicate (28 * 28 * 4) (255 :: 8 word) ! (4 * k + 2) = 255"
    by simp
  obtain t where t: "preprocessCanvas white_canvas () = Inr t"
      "(\<forall>k<784. replicate (28 * 28 * 4) (255 :: 8 word) ! (4 * k) = 255 \<and>
             replicate (28 * 28 * 4) (255 :: 8 word) ! (4 * k + 1) = 255 \<and>
             replicate (28 * 28 * 4) (255 :: 8 word) ! (4 * k + 2) = 255)
         \<longrightarrow> t = replicate 784 (Num (- 1))"
    using preprocess_pixel_formula [of white_canvas "()", OF white_canvas_bytes len] by blast
  have "t = replicate 784 (Num (- 1))" using t(2) w by blast
  then show ?thesis using t(1) white_canvas_bytes len by blast
qed

text \<open>
  C8: whatever canvas is given, the tensor has 784 entries; and on the 28 by 28 image data
  the browser returns every entry is a number (not \<^verbatim>\<open>NaN\<close>) between \<open>-1\<close> and \<open>1\<close>.
\<close>

theorem preprocess_length_and_range:
  assumes "getImageData28 canvas = Some img"
  shows "\<exists>t. preprocessCanvas getImageData28 canvas = Inr t \<and> length t = 784 \<and>
           (length img = 28 * 28 * 4 \<longrightarrow>
              (\<forall>v\<in>set t. \<exists>r. v = Num r \<and> - 1 \<le> r \<and> r \<le> 1))"
proof -
  define t where "t = pixel_loop img 0 (replicate (28 * 28) (Num 0))"
  have p: "preprocessCanvas getImageData28 canvas = Inr t"
    unfolding t_def by (rule preprocess_result) (rule assms)
  have len: "length t = 784" by (simp add: t_def length_pixel_loop)
  have "\<forall>v\<in>set t. \<exists>r. v = Num r \<and> - 1 \<le> r \<and> r \<le> 1" if l: "length img = 28 * 28 * 4"
  proof
    fix v assume "v \<in> set t"
    then obtain k where k: "k < 784" "v = t ! k" using len by (auto simp: in_set_conv_nth)
    define x where "x = (255 - (real (unat (img ! (4 * k))) + real (unat (img ! (4 * k + 1))) +
                              real (unat (img ! (4 * k + 2)))) / 3) / 255 * 2 - 1"
    have "- 1 \<le> x \<and> x \<le> 1"
      unfolding x_def
      by (rule normalized_bounds) (simp_all only: of_nat_0_le_iff byte_bound)
    moreover have "v = Num x"
      unfolding k(2) t_def x_def using l k(1) by (rule preprocess_nth)
    ultimately show "\<exists>r. v = Num r \<and> - 1 \<le> r \<and> r \<le> 1" by blast
  qed
  then show ?thesis using p len by blast
qed

theorem preprocess_length_and_range_witness:
  "white_canvas () = Some (replicate (28 * 28 * 4) 255) \<and>
   (\<exists>t. preprocessCanvas white_canvas () = Inr t \<and> length t = 784 \<and>
      (\<forall>v\<in>set t. \<exists>r. v = Num r \<and> - 1 \<le> r \<and> r \<le> 1))"
  using preprocess_length_and_range [of white_canvas "()", OF white_canvas_bytes]
    white_canvas_bytes
  by simp

section \<open>The two variants\<close>

lemma pixel_loop_unguarded_eq: "pixel_loop_unguarded d i data = pixel_loop d i data"
proof (induction d i data rule: pixel_loop.induct)
  case (1 d i data)
  show ?case
  proof (cases "i < length d")
    case True
    then show ?thesis
      using "1.IH"
      by (subst pixel_loop_unguarded.simps, subst pixel_loop.simps) (simp add: Let_def)
  next
    case False
    then show ?thesis by (subst pixel_loop_unguarded.simps, subst pixel_loop.simps) simp
  qed
qed

text \<open>
  C10: \<open>preprocessCanvas\<close> and \<open>softmax\<close> of the variant without the save guards return, on
  every input, what those of the variant with the guards return.
\<close>

theorem variants_agree:
  "preprocessCanvas_unguarded getImageData28 canvas = preprocessCanvas getImageData28 canvas \<and>
   softmax_unguarded arr = softmax arr"
  by (simp add: preprocessCanvas_unguarded_def preprocessCanvas_def pixel_loop_unguarded_eq
      softmax_unguarded_def softmax_def split: option.splits)

end
